theory Spec2Isabelle
  imports Main "HOL-Library.AList"
begin

section \<open>Token-based distributed mutual exclusion: the peer list and the lock\<close>

text \<open>
  The development embeds \<^verbatim>\<open>modules/Server/peerList.py\<close> and
  \<^verbatim>\<open>modules/Server/Lock/distributedLock.py\<close>. Every method is modelled as the body
  that one thread runs from its first statement to its return; the calls it makes on the
  stubs of other peers are appended to a list of issued calls, and whether such a call
  returns or raises is decided by a parameter (the transport, \<^verbatim>\<open>Common.orb\<close>, is not part
  of the sources). What the other threads of a peer do while a method runs is a parameter
  where the method waits for them (the polling loop of \<^verbatim>\<open>acquire\<close>) and where the
  unguarded test and assignment of \<^verbatim>\<open>acquire\<close> can be separated. Output written with
  \<^verbatim>\<open>print\<close> and \<^verbatim>\<open>logging\<close> is not modelled.
\<close>

subsection \<open>Python dictionaries and counters\<close>

text \<open>
  A \<^verbatim>\<open>dict\<close> keeps its keys in insertion order: it is an association list in which
  assigning to a present key replaces the value in place and assigning to an absent key
  appends (\<^const>\<open>AList.update\<close>). A \<^verbatim>\<open>collections.Counter\<close> is a \<^verbatim>\<open>dict\<close> whose lookup
  of an absent key gives 0 without storing it, and whose \<^verbatim>\<open>del\<close> of an absent key is
  silent (\<^const>\<open>AList.delete\<close>).
\<close>

type_synonym ('k, 'v) dict = "('k \<times> 'v) list"

type_synonym 'k counter = "('k, int) dict"

definition keys :: "('k, 'v) dict \<Rightarrow> 'k list" where
  "keys d = map fst d"

definition counter_get :: "'k counter \<Rightarrow> 'k \<Rightarrow> int" where
  "counter_get c k = (case map_of c k of None \<Rightarrow> 0 | Some v \<Rightarrow> v)"

text \<open>
  A dict comprehension \<^verbatim>\<open>{k: v for ...}\<close> assigns the generated pairs one after the
  other to an empty dict.
\<close>

definition dict_of :: "('k \<times> 'v) list \<Rightarrow> ('k, 'v) dict" where
  "dict_of kvs = fold (\<lambda>(k, v) d. AList.update k v d) kvs []"

text \<open>
  \<^verbatim>\<open>Counter(iterable)\<close> on an iterable that is not a mapping counts its elements:
  \<^verbatim>\<open>for elem in iterable: self[elem] = self.get(elem, 0) + 1\<close>.
\<close>

definition count_elements :: "'a list \<Rightarrow> 'a counter" where
  "count_elements xs = fold (\<lambda>elem c. AList.update elem (counter_get c elem + 1) c) xs []"

subsection \<open>The data of a peer\<close>

datatype lock_state = NO_TOKEN | TOKEN_PRESENT | TOKEN_HELD

text \<open>An address is the pair of host name and port that \<^verbatim>\<open>mutexPeer.py\<close> builds.\<close>

type_synonym addr = "string \<times> int"

text \<open>The remote operations a stub is asked to perform, with their arguments.\<close>

datatype rpc =
    Request_token int int
  | Obtain_token "int counter"
  | Register_peer int addr

text \<open>
  A call is the identifier of the peer whose stub is used and the operation. The network
  tells, from the calls issued before, whether a call returns (\<open>True\<close>) or raises.
\<close>

type_synonym call = "int \<times> rpc"

type_synonym network = "call list \<Rightarrow> int \<Rightarrow> rpc \<Rightarrow> bool"

datatype exn =
    RemoteError int
  | NameServiceError
  | ValueError

text \<open>
  \<^verbatim>\<open>PeerList\<close>: the owner's identifier and address, the dict \<^verbatim>\<open>peers\<close> from identifier
  to stub (a stub is determined by its address), and the calls issued through stubs.
\<close>

record peer_list =
  pl_owner_id :: int
  pl_owner_address :: addr
  peers :: "(int, addr) dict"
  pl_calls :: "call list"

text \<open>\<^verbatim>\<open>DistributedLock\<close>, with the calls it issued on stubs.\<close>

record dlock =
  peer_list :: peer_list
  owner_id :: int
  time :: int
  state :: lock_state
  token :: "int counter"
  request :: "int counter"
  calls :: "call list"

subsection \<open>The peer list\<close>

text \<open>\<^verbatim>\<open>PeerList.__init__\<close>.\<close>

definition PeerList_init :: "int \<Rightarrow> addr \<Rightarrow> peer_list" where
  "PeerList_init oid oaddr =
     \<lparr>pl_owner_id = oid, pl_owner_address = oaddr, peers = [], pl_calls = []\<rparr>"

text \<open>
  \<^verbatim>\<open>PeerList.register_peer(pid, paddr, doubleChecking=False)\<close>: the liveness sweep is
  skipped and \<^verbatim>\<open>self.peers[pid] = orb.Stub(paddr)\<close> is the whole effect.
\<close>

definition register_peer_unchecked :: "int \<Rightarrow> addr \<Rightarrow> peer_list \<Rightarrow> peer_list" where
  "register_peer_unchecked pid paddr pl = pl\<lparr>peers := AList.update pid paddr (peers pl)\<rparr>"

text \<open>
  The loop of \<^verbatim>\<open>PeerList.initialize\<close> over the tuples of the name service: every tuple
  whose identifier differs from the owner's is registered locally, and then the owner is
  registered at that peer through the new stub. That remote call is not guarded, so when
  it raises the loop is left with the exception and the peers registered so far.
\<close>

fun register_all :: "network \<Rightarrow> (int \<times> addr) list \<Rightarrow> peer_list \<Rightarrow> exn \<times> peer_list + peer_list" where
  "register_all net [] pl = Inr pl"
| "register_all net ((peer_id, peer_addr) # peer_set) pl =
     (if peer_id \<noteq> pl_owner_id pl then
        let pl1 = register_peer_unchecked peer_id peer_addr pl;
            msg = Register_peer (pl_owner_id pl1) (pl_owner_address pl1);
            pl2 = pl1\<lparr>pl_calls := pl_calls pl1 @ [(peer_id, msg)]\<rparr>
        in if net (pl_calls pl1) peer_id msg then register_all net peer_set pl2
           else Inl (RemoteError peer_id, pl2)
      else register_all net peer_set pl)"

text \<open>
  \<^verbatim>\<open>PeerList.initialize\<close>. The answer of the name service is a parameter: either
  it raises, and the exception is passed on after the lock is released, or it is the list
  of \<^verbatim>\<open>(id, addr)\<close> tuples.
\<close>

definition PeerList_initialize ::
    "network \<Rightarrow> exn + (int \<times> addr) list \<Rightarrow> peer_list \<Rightarrow> exn \<times> peer_list + peer_list" where
  "PeerList_initialize net name_service pl =
     (case name_service of
        Inl e \<Rightarrow> Inl (e, pl)
      | Inr peer_set \<Rightarrow> register_all net peer_set pl)"

text \<open>\<^verbatim>\<open>PeerList.get_peers\<close> returns the dict itself.\<close>

definition get_peers :: "peer_list \<Rightarrow> (int, addr) dict" where
  "get_peers pl = peers pl"

subsection \<open>The lock\<close>

text \<open>\<^verbatim>\<open>DistributedLock.__init__\<close>.\<close>

definition DistributedLock_init :: "int \<Rightarrow> peer_list \<Rightarrow> dlock" where
  "DistributedLock_init oid pl =
     \<lparr>peer_list = pl, owner_id = oid, time = 0, state = NO_TOKEN,
      token = [], request = [], calls = []\<rparr>"

text \<open>
  The payload values that \<^verbatim>\<open>_prepare\<close> and \<^verbatim>\<open>_unprepare\<close> handle: integers and
  tuples. \<^verbatim>\<open>Counter(x)\<close> copies \<open>x\<close> when it is a mapping and counts the elements of
  \<open>x\<close> when it is any other iterable.
\<close>

datatype pyval = PInt int | PTuple "pyval list"

datatype counter_arg = Mapping "pyval counter" | Iterable "pyval list"

definition Counter :: "counter_arg \<Rightarrow> pyval counter" where
  "Counter x = (case x of Mapping m \<Rightarrow> dict_of m | Iterable xs \<Rightarrow> count_elements xs)"

text \<open>\<^verbatim>\<open>_prepare\<close>: \<^verbatim>\<open>list(token.items())\<close>, the list of \<^verbatim>\<open>(key, value)\<close> tuples.\<close>

definition prepare :: "pyval counter \<Rightarrow> counter_arg" where
  "prepare tok = Iterable (map (\<lambda>(k, v). PTuple [k, PInt v]) tok)"

text \<open>\<^verbatim>\<open>_unprepare\<close>: \<^verbatim>\<open>Counter(token)\<close>.\<close>

definition unprepare :: "counter_arg \<Rightarrow> pyval counter" where
  "unprepare tok = Counter tok"

text \<open>\<^verbatim>\<open>DistributedLock.initialize\<close>.\<close>

definition initialize :: "dlock \<Rightarrow> dlock" where
  "initialize s =
     (let peerIDs = get_peers (peer_list s)
      in if length peerIDs = 0 then s\<lparr>state := TOKEN_PRESENT\<rparr> else s)"

text \<open>
  \<^verbatim>\<open>DistributedLock.unregister_peer\<close>: \<^verbatim>\<open>del self.request[pID]\<close>.
\<close>

definition unregister_peer :: "int \<Rightarrow> dlock \<Rightarrow> dlock" where
  "unregister_peer pID s = s\<lparr>request := AList.delete pID (request s)\<rparr>"

text \<open>
  \<^verbatim>\<open>_clean_token\<close>: the token is rebuilt from its own keys, keeping a key when it is the
  owner's identifier or a key of the peer dict.
\<close>

definition clean_token :: "dlock \<Rightarrow> dlock" where
  "clean_token s =
     (let all_peers = get_peers (peer_list s)
      in s\<lparr>token := dict_of
            [(pid, counter_get (token s) pid).
               pid \<leftarrow> keys (token s), pid = owner_id s \<or> pid \<in> set (keys all_peers)]\<rparr>)"

text \<open>
  The list \<^verbatim>\<open>gt + lt\<close> that \<^verbatim>\<open>_check_token\<close> scans, and the identifier at which its
  loop breaks (\<open>None\<close> when the loop runs to its end).
\<close>

definition scan_order :: "dlock \<Rightarrow> int list" where
  "scan_order s =
     (let requester_ids = keys (request s);
          gt = sort [pid \<leftarrow> requester_ids. pid > owner_id s];
          lt = sort [pid \<leftarrow> requester_ids. pid < owner_id s]
      in gt @ lt)"

definition find_target :: "dlock \<Rightarrow> int option" where
  "find_target s =
     find (\<lambda>pid. counter_get (request s) pid > counter_get (token s) pid) (scan_order s)"

text \<open>
  \<^verbatim>\<open>_check_token\<close>, returning \<^verbatim>\<open>wasSent\<close> and the lock. In state \<open>NO_TOKEN\<close> it
  returns at once; in state \<open>TOKEN_HELD\<close> it only warns and goes on. With a target, the
  token is cleaned, the state is set to \<open>NO_TOKEN\<close>, the target's stub is looked up
  (a missing key raises) and \<^verbatim>\<open>obtain_token\<close> is called on it; whatever is raised in
  these steps is caught, and leaves \<^verbatim>\<open>wasSent\<close> false.
\<close>

definition check_token :: "network \<Rightarrow> dlock \<Rightarrow> bool \<times> dlock" where
  "check_token net s =
     (if state s \<noteq> TOKEN_PRESENT \<and> state s = NO_TOKEN then (False, s)
      else
        case find_target s of
          None \<Rightarrow> (False, s)
        | Some pid \<Rightarrow>
            let s1 = clean_token s;
                s2 = s1\<lparr>state := NO_TOKEN\<rparr>
            in case map_of (get_peers (peer_list s2)) pid of
                 None \<Rightarrow> (False, s2)
               | Some stub \<Rightarrow>
                   let msg = Obtain_token (token s2);
                       s3 = s2\<lparr>calls := calls s2 @ [(pid, msg)]\<rparr>
                   in (net (calls s2) pid msg, s3))"

text \<open>\<^verbatim>\<open>release\<close>.\<close>

definition release :: "network \<Rightarrow> dlock \<Rightarrow> dlock" where
  "release net s =
     (if state s = TOKEN_HELD then snd (check_token net (s\<lparr>state := TOKEN_PRESENT\<rparr>))
      else s)"

text \<open>Decimal formatting of an integer, as \<^verbatim>\<open>str.format\<close> does for \<^verbatim>\<open>{}\<close>.\<close>

fun digits :: "nat \<Rightarrow> string" where
  "digits n =
     (if n < 10 then [char_of (48 + n)]
      else digits (n div 10) @ [char_of (48 + n mod 10)])"

definition str_int :: "int \<Rightarrow> string" where
  "str_int i = (if i < 0 then CHR ''-'' # digits (nat (- i)) else digits (nat i))"

text \<open>
  \<^verbatim>\<open>request_token(time, pid)\<close>, returning the acknowledgement string and the lock.
\<close>

definition request_token :: "network \<Rightarrow> int \<Rightarrow> int \<Rightarrow> dlock \<Rightarrow> string \<times> dlock" where
  "request_token net t pid s =
     (let s1 = s\<lparr>request := AList.update pid (max (counter_get (request s) pid) t) (request s)\<rparr>;
          s2 = (if state s1 = TOKEN_PRESENT
                     \<and> counter_get (token s1) pid < counter_get (request s1) pid
                then snd (check_token net s1) else s1)
      in (str_int (owner_id s2) @ '' acknowledging request from '' @ str_int pid, s2))"

text \<open>
  The dict comprehension of \<^verbatim>\<open>obtain_token\<close>, \<^verbatim>\<open>{int(k): token[k] for k in token}\<close>.
  The received token is a dict, so its pairs are its keys with their values. The type of
  its keys is the transport's; \<^verbatim>\<open>int\<close> on them is the parameter \<open>int_of\<close>, which gives
  \<open>None\<close> where \<^verbatim>\<open>int\<close> raises.
\<close>

definition int_keys :: "('k \<Rightarrow> int option) \<Rightarrow> 'k counter \<Rightarrow> int counter option" where
  "int_keys int_of tok =
     map_option dict_of (those (map (\<lambda>(k, v). map_option (\<lambda>i. (i, v)) (int_of k)) tok))"

text \<open>
  \<^verbatim>\<open>obtain_token(token)\<close>. A state other than \<open>NO_TOKEN\<close> only gives a warning.
\<close>

definition obtain_token ::
    "('k \<Rightarrow> int option) \<Rightarrow> network \<Rightarrow> 'k counter \<Rightarrow> dlock \<Rightarrow> exn \<times> dlock + dlock" where
  "obtain_token int_of net tok s =
     (case int_keys int_of tok of
        None \<Rightarrow> Inl (ValueError, s)
      | Some c \<Rightarrow>
          let s1 = s\<lparr>token := c\<rparr>;
              tokenWasWanted =
                (counter_get (request s1) (owner_id s1) > counter_get (token s1) (owner_id s1));
              s2 = s1\<lparr>token := AList.update (owner_id s1) (time s1) (token s1)\<rparr>;
              s3 = s2\<lparr>state := TOKEN_HELD\<rparr>
          in Inr (if \<not> tokenWasWanted then release net s3 else s3))"

text \<open>
  The broadcast loop of \<^verbatim>\<open>acquire\<close> over the stubs of the peer dict. The call on a stub
  is not guarded: when it raises, the loop is left with the exception.
\<close>

fun request_all :: "network \<Rightarrow> int list \<Rightarrow> dlock \<Rightarrow> exn \<times> dlock + dlock" where
  "request_all net [] s = Inr s"
| "request_all net (p # ps) s =
     (let msg = Request_token (time s) (owner_id s);
          s1 = s\<lparr>calls := calls s @ [(p, msg)]\<rparr>
      in if net (calls s) p msg then request_all net ps s1
         else Inl (RemoteError p, s1))"

text \<open>
  The polling loop of \<^verbatim>\<open>acquire\<close>, \<^verbatim>\<open>while self.state == NO_TOKEN: time.sleep(1)\<close>.
  What the other threads of the peer do to the lock during one sleep is one element of
  the list \<open>evs\<close>; when the list is used up and the state is still \<open>NO_TOKEN\<close> nothing
  will change it any more, and the loop does not end (\<open>None\<close>).
\<close>

fun wait_token :: "(dlock \<Rightarrow> dlock) list \<Rightarrow> dlock \<Rightarrow> dlock option" where
  "wait_token evs s =
     (if state s = NO_TOKEN then
        (case evs of [] \<Rightarrow> None | ev # evs' \<Rightarrow> wait_token evs' (ev s))
      else Some s)"

text \<open>
  \<^verbatim>\<open>acquire\<close>: \<open>None\<close> when it does not return, \<open>Some (Inl (e, s))\<close> when it raises
  \<open>e\<close> and leaves the lock as \<open>s\<close>, \<open>Some (Inr s)\<close> when it returns.
\<close>

definition acquire ::
    "network \<Rightarrow> (dlock \<Rightarrow> dlock) list \<Rightarrow> dlock \<Rightarrow> (exn \<times> dlock + dlock) option" where
  "acquire net evs s =
     (if state s = NO_TOKEN then
        let s1 = s\<lparr>time := time s + 1\<rparr>;
            s2 = s1\<lparr>request := AList.update (owner_id s1) (time s1) (request s1)\<rparr>
        in case request_all net (keys (get_peers (peer_list s2))) s2 of
             Inl e \<Rightarrow> Some (Inl e)
           | Inr s3 \<Rightarrow> map_option Inr (wait_token evs s3)
      else if state s = TOKEN_PRESENT then Some (Inr (s\<lparr>state := TOKEN_HELD\<rparr>))
      else Some (Inr s))"

text \<open>
  \<^verbatim>\<open>acquire\<close> reads and writes \<^verbatim>\<open>self.state\<close> without holding a lock, and the
  handlers of inbound calls run in threads of their own. Here the second branch is split
  where a thread switch can fall: after the test \<^verbatim>\<open>elif self.state == TOKEN_PRESENT\<close>
  has succeeded, the other threads of the peer change the lock by \<open>other\<close>, and then
  the assignment \<^verbatim>\<open>self.state = TOKEN_HELD\<close> is run. With \<open>other\<close> the identity this is
  \<open>acquire\<close>.
\<close>

definition acquire_preempted ::
    "network \<Rightarrow> (dlock \<Rightarrow> dlock) \<Rightarrow> (dlock \<Rightarrow> dlock) list \<Rightarrow> dlock
       \<Rightarrow> (exn \<times> dlock + dlock) option" where
  "acquire_preempted net other evs s =
     (if state s = NO_TOKEN then
        let s1 = s\<lparr>time := time s + 1\<rparr>;
            s2 = s1\<lparr>request := AList.update (owner_id s1) (time s1) (request s1)\<rparr>
        in case request_all net (keys (get_peers (peer_list s2))) s2 of
             Inl e \<Rightarrow> Some (Inl e)
           | Inr s3 \<Rightarrow> map_option Inr (wait_token evs s3)
      else if state s = TOKEN_PRESENT then Some (Inr ((other s)\<lparr>state := TOKEN_HELD\<rparr>))
      else Some (Inr s))"

text \<open>
  The loop of \<^verbatim>\<open>_offload_token\<close> over the keys of the peer dict: the state is set to
  \<open>NO_TOKEN\<close> and \<^verbatim>\<open>obtain_token\<close> is called on the peer's stub; a call that raises is
  caught and the next peer is tried, a call that returns ends the loop.
\<close>

fun force_send :: "network \<Rightarrow> int list \<Rightarrow> dlock \<Rightarrow> bool \<times> dlock" where
  "force_send net [] s = (False, s)"
| "force_send net (pid # pids) s =
     (let s1 = s\<lparr>state := NO_TOKEN\<rparr>;
          msg = Obtain_token (token s1);
          s2 = s1\<lparr>calls := calls s1 @ [(pid, msg)]\<rparr>
      in if net (calls s1) pid msg then (True, s2) else force_send net pids s2)"

text \<open>
  \<^verbatim>\<open>_offload_token\<close>: nothing in state \<open>NO_TOKEN\<close>; otherwise \<^verbatim>\<open>_check_token\<close> first
  and, when that did not send, the token is cleaned and offered to every peer in turn.
\<close>

definition offload_token :: "network \<Rightarrow> dlock \<Rightarrow> bool \<times> dlock" where
  "offload_token net s =
     (if state s \<noteq> TOKEN_PRESENT \<and> state s = NO_TOKEN then (False, s)
      else
        case check_token net s of
          (True, s1) \<Rightarrow> (True, s1)
        | (False, s1) \<Rightarrow>
            let s2 = clean_token s1;
                all_peers = get_peers (peer_list s2)
            in force_send net (keys all_peers) s2)"

text \<open>\<^verbatim>\<open>DistributedLock.destroy\<close>.\<close>

definition destroy :: "network \<Rightarrow> dlock \<Rightarrow> dlock" where
  "destroy net s = snd (offload_token net s)"

text \<open>
  A sequence of \<^verbatim>\<open>request_token(time, pid)\<close> calls served one after the other, each
  given as the pair of its arguments.
\<close>

definition request_tokens :: "network \<Rightarrow> (int \<times> int) list \<Rightarrow> dlock \<Rightarrow> dlock" where
  "request_tokens net cs s = fold (\<lambda>(t, pid) s. snd (request_token net t pid s)) cs s"

section \<open>Properties\<close>

subsection \<open>Dictionaries and counters\<close>

lemma counter_get_update:
  "counter_get (AList.update k v c) k' = (if k' = k then v else counter_get c k')"
  by (simp add: counter_get_def update_conv')

lemma keys_update: "set (keys (AList.update k v d)) = insert k (set (keys d))"
  using dom_update [of k v d] by (simp add: keys_def)

lemma keys_fold_update:
  "set (keys (fold (\<lambda>(k, v) d. AList.update k v d) kvs d)) = fst ` set kvs \<union> set (keys d)"
  by (induction kvs arbitrary: d) (auto simp: keys_update split: prod.splits)

lemma keys_dict_of: "set (keys (dict_of kvs)) = fst ` set kvs"
  using keys_fold_update [of kvs "[]"] by (simp add: dict_of_def keys_def)

lemma map_of_fold_update:
  "list_all (\<lambda>(k, v). v = f k) kvs \<Longrightarrow>
   map_of (fold (\<lambda>(k, v) d. AList.update k v d) kvs d) k =
     (if k \<in> fst ` set kvs then Some (f k) else map_of d k)"
  by (induction kvs arbitrary: d) (auto simp: update_conv' split: prod.splits)

lemma map_of_dict_of:
  "list_all (\<lambda>(k, v). v = f k) kvs \<Longrightarrow>
   map_of (dict_of kvs) k = (if k \<in> fst ` set kvs then Some (f k) else None)"
  by (simp add: dict_of_def map_of_fold_update)

lemma dict_of_distinct_aux:
  "distinct (map fst (d @ kvs)) \<Longrightarrow> fold (\<lambda>(k, v) d. AList.update k v d) kvs d = d @ kvs"
proof (induction kvs arbitrary: d)
  case Nil
  then show ?case by simp
next
  case (Cons kv kvs)
  obtain k v where kv: "kv = (k, v)" by (cases kv)
  from Cons.prems kv have "k \<notin> fst ` set d" by auto
  then have "AList.update k v d = d @ [(k, v)]"
    by (induction d) auto
  with Cons kv show ?case by simp
qed

lemma dict_of_distinct: "distinct (keys d) \<Longrightarrow> dict_of d = d"
  using dict_of_distinct_aux [of "[]" d] by (simp add: dict_of_def keys_def)

lemma comprehension_filter:
  "[(k, f k). k \<leftarrow> ks, P k] = map (\<lambda>k. (k, f k)) (filter P ks)"
  by (induction ks) auto

lemma counter_get_absent: "k \<notin> set (keys c) \<Longrightarrow> counter_get c k = 0"
proof -
  assume "k \<notin> set (keys c)"
  then have "map_of c k = None"
    by (simp add: keys_def map_of_eq_None_iff)
  then show ?thesis by (simp add: counter_get_def)
qed

lemma map_of_keys: "(map_of d k = None) = (k \<notin> set (keys d))"
  by (simp add: keys_def map_of_eq_None_iff)

lemma find_Some_split:
  "find P xs = Some x \<Longrightarrow>
     \<exists>pre post. xs = pre @ x # post \<and> list_all (\<lambda>y. \<not> P y) pre \<and> P x"
proof (induction xs)
  case Nil
  then show ?case by simp
next
  case (Cons a xs)
  show ?case
  proof (cases "P a")
    case True
    with Cons.prems have "a = x" by simp
    with True have "a # xs = [] @ x # xs \<and> list_all (\<lambda>y. \<not> P y) [] \<and> P x" by simp
    then show ?thesis by blast
  next
    case False
    with Cons obtain pre post where
      "xs = pre @ x # post" "list_all (\<lambda>y. \<not> P y) pre" "P x" by auto
    with False have "a # xs = (a # pre) @ x # post \<and> list_all (\<lambda>y. \<not> P y) (a # pre) \<and> P x"
      by simp
    then show ?thesis by blast
  qed
qed

lemma find_None_all: "find P xs = None \<Longrightarrow> list_all (\<lambda>y. \<not> P y) xs"
  by (induction xs) (auto split: if_splits)

subsection \<open>Auxiliary facts about the lock\<close>

lemma request_check_token: "request (snd (check_token net s)) = request s"
  by (simp add: check_token_def clean_token_def Let_def split: option.splits)

lemma peer_list_check_token: "peer_list (snd (check_token net s)) = peer_list s"
  by (simp add: check_token_def clean_token_def Let_def split: option.splits)

lemma token_clean_token_keys:
  "set (keys (token (clean_token s))) =
     {k \<in> set (keys (token s)). k = owner_id s \<or> k \<in> set (keys (get_peers (peer_list s)))}"
  by (auto simp: clean_token_def Let_def keys_dict_of comprehension_filter image_iff)

lemma token_clean_token_get:
  "counter_get (token (clean_token s)) k =
     (if k = owner_id s \<or> k \<in> set (keys (get_peers (peer_list s)))
      then counter_get (token s) k else 0)"
proof -
  let ?P = "\<lambda>pid. pid = owner_id s \<or> pid \<in> set (keys (get_peers (peer_list s)))"
  let ?kvs = "map (\<lambda>pid. (pid, counter_get (token s) pid)) (filter ?P (keys (token s)))"
  have tok: "token (clean_token s) = dict_of ?kvs"
    by (simp add: clean_token_def Let_def comprehension_filter)
  have all: "list_all (\<lambda>(k, v). v = counter_get (token s) k) ?kvs"
    by (simp add: list_all_iff)
  have img: "fst ` set ?kvs = {k \<in> set (keys (token s)). ?P k}"
    by (auto simp: image_iff)
  have m: "map_of (dict_of ?kvs) k =
      (if k \<in> set (keys (token s)) \<and> ?P k then Some (counter_get (token s) k) else None)"
    using map_of_dict_of [OF all, of k] img by simp
  show ?thesis
  proof (cases "k \<in> set (keys (token s))")
    case True
    with m tok show ?thesis by (simp add: counter_get_def)
  next
    case False
    with m tok counter_get_absent [OF False] show ?thesis by (simp add: counter_get_def)
  qed
qed

lemma request_request_token:
  "counter_get (request (snd (request_token net t q s))) p =
     (if p = q then max (counter_get (request s) p) t else counter_get (request s) p)"
  by (simp add: request_token_def Let_def request_check_token counter_get_update)

lemma finite_timestamps: "finite {t. (t, p) \<in> set cs}"
proof -
  have "{t. (t, p) \<in> set cs} \<subseteq> fst ` set cs" by force
  then show ?thesis by (rule finite_subset) simp
qed

lemma request_request_tokens:
  "counter_get (request (request_tokens net cs s)) p =
     Max (insert (counter_get (request s) p) {t. (t, p) \<in> set cs})"
proof (induction cs arbitrary: s)
  case Nil
  then show ?case by (simp add: request_tokens_def)
next
  case (Cons c cs)
  obtain t q where c: "c = (t, q)" by (cases c)
  let ?s = "snd (request_token net t q s)"
  let ?a = "counter_get (request s) p"
  let ?T = "{t. (t, p) \<in> set cs}"
  have fin: "finite ?T" by (rule finite_timestamps)
  have step: "request_tokens net (c # cs) s = request_tokens net cs ?s"
    by (simp add: request_tokens_def c)
  show ?case
  proof (cases "p = q")
    case True
    have set_eq: "{t'. (t', p) \<in> set (c # cs)} = insert t ?T"
      using True c by auto
    have "counter_get (request (request_tokens net cs ?s)) p = Max (insert (max ?a t) ?T)"
      using Cons.IH [of ?s] True by (simp add: request_request_token)
    also have "\<dots> = Max (insert ?a (insert t ?T))"
    proof (cases "?T = {}")
      case True
      then show ?thesis by (simp add: max.commute)
    next
      case False
      with fin show ?thesis by (simp add: max.assoc)
    qed
    finally show ?thesis by (simp only: step set_eq)
  next
    case False
    have set_eq: "{t'. (t', p) \<in> set (c # cs)} = ?T"
      using False c by auto
    have "counter_get (request (request_tokens net cs ?s)) p = Max (insert ?a ?T)"
      using Cons.IH [of ?s] False by (simp add: request_request_token)
    then show ?thesis by (simp only: step set_eq)
  qed
qed

lemma scan_order_split:
  "\<exists>gt lt. scan_order s = gt @ lt \<and> sorted gt \<and> sorted lt
      \<and> set gt = {p \<in> set (keys (request s)). owner_id s < p}
      \<and> set lt = {p \<in> set (keys (request s)). p < owner_id s}"
proof -
  let ?gt = "sort [pid \<leftarrow> keys (request s). pid > owner_id s]"
  let ?lt = "sort [pid \<leftarrow> keys (request s). pid < owner_id s]"
  have "scan_order s = ?gt @ ?lt \<and> sorted ?gt \<and> sorted ?lt
      \<and> set ?gt = {p \<in> set (keys (request s)). owner_id s < p}
      \<and> set ?lt = {p \<in> set (keys (request s)). p < owner_id s}"
    by (auto simp: scan_order_def Let_def)
  then show ?thesis by blast
qed

lemma those_map_Some:
  "those (map (\<lambda>(k, v). map_option (\<lambda>i. (i, v)) (int_of k)) tok) = Some l \<Longrightarrow>
     l = map (\<lambda>(k, v). (the (int_of k), v)) tok \<and> list_all (\<lambda>k. int_of k \<noteq> None) (keys tok)"
  by (induction tok arbitrary: l) (auto simp: keys_def split: option.splits)

lemma int_keys_distinct:
  assumes c: "int_keys int_of tok = Some c"
    and d: "distinct (keys tok)" and inj: "inj_on int_of (set (keys tok))"
  shows "c = map (\<lambda>(k, v). (the (int_of k), v)) tok"
proof -
  let ?l = "map (\<lambda>(k, v). (the (int_of k), v)) tok"
  from c obtain l where l: "those (map (\<lambda>(k, v). map_option (\<lambda>i. (i, v)) (int_of k)) tok) = Some l"
    and cl: "c = dict_of l"
    by (auto simp: int_keys_def)
  from those_map_Some [OF l] have ll: "l = ?l" and some: "list_all (\<lambda>k. int_of k \<noteq> None) (keys tok)"
    by simp_all
  have "inj_on (\<lambda>k. the (int_of k)) (set (keys tok))"
  proof (rule inj_onI)
    fix x y assume x: "x \<in> set (keys tok)" and y: "y \<in> set (keys tok)"
      and e: "the (int_of x) = the (int_of y)"
    from some x y have "int_of x \<noteq> None" "int_of y \<noteq> None"
      by (auto simp: list_all_iff)
    with e have "int_of x = int_of y" by auto
    with inj x y show "x = y" by (auto dest: inj_onD)
  qed
  moreover have "keys ?l = map (\<lambda>k. the (int_of k)) (keys tok)"
    by (simp add: keys_def case_prod_beta comp_def)
  ultimately have "distinct (keys ?l)"
    using d by (simp add: distinct_map)
  then show ?thesis using cl ll by (simp add: dict_of_distinct)
qed

lemma check_token_cases:
  "(let s' = snd (check_token net s);
        live = insert (owner_id s) (set (keys (get_peers (peer_list s))))
    in (calls s' = calls s \<and> \<not> fst (check_token net s))
       \<or> (\<exists>pid. find_target s = Some pid
             \<and> calls s' = calls s @ [(pid, Obtain_token (token s'))]
             \<and> set (keys (token s')) \<subseteq> live
             \<and> (\<forall>k. counter_get (token s') k =
                      (if k \<in> live then counter_get (token s) k else 0))))"
proof (cases "state s = NO_TOKEN \<or> find_target s = None")
  case True
  then show ?thesis
    by (auto simp: check_token_def Let_def)
next
  case False
  then obtain pid where pid: "find_target s = Some pid" and st: "state s \<noteq> NO_TOKEN"
    by auto
  show ?thesis
  proof (cases "map_of (get_peers (peer_list s)) pid")
    case None
    with pid st show ?thesis
      by (simp add: check_token_def Let_def clean_token_def)
  next
    case (Some stub)
    have pl: "peer_list (clean_token s) = peer_list s"
      by (simp add: clean_token_def Let_def)
    have r: "check_token net s =
        (net (calls s) pid (Obtain_token (token (clean_token s))),
         (clean_token s)\<lparr>state := NO_TOKEN,
            calls := calls s @ [(pid, Obtain_token (token (clean_token s)))]\<rparr>)"
      using pid st Some by (simp add: check_token_def Let_def pl) (simp add: clean_token_def Let_def)
    have sub: "set (keys (token (clean_token s))) \<subseteq>
        insert (owner_id s) (set (keys (get_peers (peer_list s))))"
      by (auto simp: token_clean_token_keys)
    show ?thesis
      using pid sub by (simp add: r Let_def token_clean_token_get)
  qed
qed

lemma force_send_calls:
  "\<exists>new. calls (snd (force_send net pids s)) = calls s @ new
     \<and> list_all (\<lambda>(p, m). m = Obtain_token (token s)) new"
proof (induction pids arbitrary: s)
  case Nil
  then show ?case by simp
next
  case (Cons pid pids)
  let ?s2 = "s\<lparr>state := NO_TOKEN, calls := calls s @ [(pid, Obtain_token (token s))]\<rparr>"
  show ?case
  proof (cases "net (calls s) pid (Obtain_token (token s))")
    case True
    then have "calls (snd (force_send net (pid # pids) s)) = calls s @ [(pid, Obtain_token (token s))]
       \<and> list_all (\<lambda>(p, m). m = Obtain_token (token s)) [(pid, Obtain_token (token s))]"
      by (simp add: Let_def)
    then show ?thesis by blast
  next
    case False
    from Cons.IH [of ?s2] obtain new where
      n: "calls (snd (force_send net pids ?s2)) = calls ?s2 @ new"
        "list_all (\<lambda>(p, m). m = Obtain_token (token ?s2)) new" by blast
    from False n have "calls (snd (force_send net (pid # pids) s)) =
         calls s @ ((pid, Obtain_token (token s)) # new)
       \<and> list_all (\<lambda>(p, m). m = Obtain_token (token s)) ((pid, Obtain_token (token s)) # new)"
      by (simp add: Let_def)
    then show ?thesis by blast
  qed
qed


lemma check_token_calls:
  "\<exists>new. calls (snd (check_token net s)) = calls s @ new
     \<and> list_all (\<lambda>(p, m). \<exists>tok. m = Obtain_token tok
           \<and> set (keys tok) \<subseteq> insert (owner_id s) (set (keys (get_peers (peer_list s))))) new"
proof -
  let ?s' = "snd (check_token net s)"
  let ?live = "insert (owner_id s) (set (keys (get_peers (peer_list s))))"
  let ?ok = "\<lambda>(p, m). \<exists>tok. m = Obtain_token tok \<and> set (keys tok) \<subseteq> ?live"
  from check_token_cases [of net s]
  consider "calls ?s' = calls s"
    | pid where "calls ?s' = calls s @ [(pid, Obtain_token (token ?s'))]"
        "set (keys (token ?s')) \<subseteq> ?live"
    by (auto simp: Let_def)
  then show ?thesis
  proof cases
    case 1
    then have "calls ?s' = calls s @ [] \<and> list_all ?ok []" by simp
    then show ?thesis by blast
  next
    case 2
    then have "calls ?s' = calls s @ [(pid, Obtain_token (token ?s'))]
       \<and> list_all ?ok [(pid, Obtain_token (token ?s'))]" by simp
    then show ?thesis by blast
  qed
qed

lemma owner_id_check_token: "owner_id (snd (check_token net s)) = owner_id s"
  by (simp add: check_token_def clean_token_def Let_def split: option.splits)

lemma offload_token_calls:
  "\<exists>new. calls (snd (offload_token net s)) = calls s @ new
     \<and> list_all (\<lambda>(p, m). \<exists>tok. m = Obtain_token tok
           \<and> set (keys tok) \<subseteq> insert (owner_id s) (set (keys (get_peers (peer_list s))))) new"
proof -
  let ?live = "insert (owner_id s) (set (keys (get_peers (peer_list s))))"
  let ?ok = "\<lambda>(p, m). \<exists>tok. m = Obtain_token tok \<and> set (keys tok) \<subseteq> ?live"
  let ?s1 = "snd (check_token net s)"
  let ?s2 = "clean_token ?s1"
  from check_token_calls [of net s] obtain new1 where
    n1: "calls ?s1 = calls s @ new1" "list_all ?ok new1" by blast
  show ?thesis
  proof (cases "state s = NO_TOKEN \<or> fst (check_token net s)")
    case True
    then have "snd (offload_token net s) = s \<or> snd (offload_token net s) = ?s1"
      by (auto simp: offload_token_def split: prod.splits bool.splits)
    then have "(calls (snd (offload_token net s)) = calls s @ [] \<and> list_all ?ok [])
       \<or> (calls (snd (offload_token net s)) = calls s @ new1 \<and> list_all ?ok new1)"
      using n1 by auto
    then show ?thesis by blast
  next
    case False
    then have off: "offload_token net s = force_send net (keys (get_peers (peer_list ?s2))) ?s2"
      by (auto simp: offload_token_def Let_def split: prod.splits bool.splits)
    from force_send_calls [of net "keys (get_peers (peer_list ?s2))" ?s2] obtain new2 where
      n2: "calls (snd (force_send net (keys (get_peers (peer_list ?s2))) ?s2)) = calls ?s2 @ new2"
        "list_all (\<lambda>(p, m). m = Obtain_token (token ?s2)) new2" by blast
    have c2: "calls ?s2 = calls ?s1"
      by (simp add: clean_token_def Let_def)
    have "set (keys (token ?s2)) \<subseteq> ?live"
      by (auto simp: token_clean_token_keys owner_id_check_token peer_list_check_token)
    with n2(2) have "list_all ?ok new2"
      by (auto simp: list_all_iff)
    with n1 n2(1) c2 off have "calls (snd (offload_token net s)) = calls s @ (new1 @ new2)
       \<and> list_all ?ok (new1 @ new2)" by simp
    then show ?thesis by blast
  qed
qed

lemma acquire_preempted_id: "acquire_preempted net id evs s = acquire net evs s"
  by (simp add: acquire_preempted_def acquire_def)

subsection \<open>The claims\<close>

text \<open>
  Claim C1. No two peers are to be in \<open>TOKEN_HELD\<close> at the same time. Peer 1 holds the
  idle token (\<open>TOKEN_PRESENT\<close>) and knows peer 2; peer 2, in \<open>NO_TOKEN\<close>, has started
  \<^verbatim>\<open>acquire\<close> and is inside its call \<^verbatim>\<open>request_token(1, 2)\<close> on peer 1. The control
  thread of peer 1 starts \<^verbatim>\<open>acquire\<close> and passes the test for \<open>TOKEN_PRESENT\<close>; before
  its assignment, the handler thread of peer 1 serves the request of peer 2 and forwards
  the token (first equation). Peer 2 receives it in \<^verbatim>\<open>obtain_token\<close> and is in
  \<open>TOKEN_HELD\<close> (second equation). The control thread of peer 1 then runs its
  assignment, and \<^verbatim>\<open>acquire\<close> returns with peer 1 in \<open>TOKEN_HELD\<close> as well (third
  equation).
\<close>

theorem acquire_race_two_holders:
  "snd (request_token (\<lambda>cs p m. True) 1 2
     \<lparr>peer_list = \<lparr>pl_owner_id = 1, pl_owner_address = (''a'', 40001),
                   peers = [(2, (''b'', 40002))], pl_calls = []\<rparr>,
      owner_id = 1, time = 0, state = TOKEN_PRESENT,
      token = [], request = [], calls = []\<rparr>)
   = \<lparr>peer_list = \<lparr>pl_owner_id = 1, pl_owner_address = (''a'', 40001),
                   peers = [(2, (''b'', 40002))], pl_calls = []\<rparr>,
      owner_id = 1, time = 0, state = NO_TOKEN,
      token = [], request = [(2, 1)], calls = [(2, Obtain_token [])]\<rparr>
   \<and> obtain_token Some (\<lambda>cs p m. True) []
     \<lparr>peer_list = \<lparr>pl_owner_id = 2, pl_owner_address = (''b'', 40002),
                   peers = [(1, (''a'', 40001))], pl_calls = []\<rparr>,
      owner_id = 2, time = 1, state = NO_TOKEN,
      token = [], request = [(2, 1)], calls = [(1, Request_token 1 2)]\<rparr>
   = Inr
     \<lparr>peer_list = \<lparr>pl_owner_id = 2, pl_owner_address = (''b'', 40002),
                   peers = [(1, (''a'', 40001))], pl_calls = []\<rparr>,
      owner_id = 2, time = 1, state = TOKEN_HELD,
      token = [(2, 1)], request = [(2, 1)], calls = [(1, Request_token 1 2)]\<rparr>
   \<and> acquire_preempted (\<lambda>cs p m. True)
       (\<lambda>s. snd (request_token (\<lambda>cs p m. True) 1 2 s)) evs
     \<lparr>peer_list = \<lparr>pl_owner_id = 1, pl_owner_address = (''a'', 40001),
                   peers = [(2, (''b'', 40002))], pl_calls = []\<rparr>,
      owner_id = 1, time = 0, state = TOKEN_PRESENT,
      token = [], request = [], calls = []\<rparr>
   = Some (Inr
     \<lparr>peer_list = \<lparr>pl_owner_id = 1, pl_owner_address = (''a'', 40001),
                   peers = [(2, (''b'', 40002))], pl_calls = []\<rparr>,
      owner_id = 1, time = 0, state = TOKEN_HELD,
      token = [], request = [(2, 1)], calls = [(2, Obtain_token [])]\<rparr>)"
proof -
  have h: "snd (request_token (\<lambda>cs p m. True) 1 2
     \<lparr>peer_list = \<lparr>pl_owner_id = 1, pl_owner_address = (''a'', 40001),
                   peers = [(2, (''b'', 40002))], pl_calls = []\<rparr>,
      owner_id = 1, time = 0, state = TOKEN_PRESENT,
      token = [], request = [], calls = []\<rparr>)
   = \<lparr>peer_list = \<lparr>pl_owner_id = 1, pl_owner_address = (''a'', 40001),
                   peers = [(2, (''b'', 40002))], pl_calls = []\<rparr>,
      owner_id = 1, time = 0, state = NO_TOKEN,
      token = [], request = [(2, 1)], calls = [(2, Obtain_token [])]\<rparr>"
    by (simp add: request_token_def check_token_def find_target_def scan_order_def
        clean_token_def keys_def get_peers_def counter_get_def dict_of_def Let_def)
  have o: "obtain_token Some (\<lambda>cs p m. True) []
     \<lparr>peer_list = \<lparr>pl_owner_id = 2, pl_owner_address = (''b'', 40002),
                   peers = [(1, (''a'', 40001))], pl_calls = []\<rparr>,
      owner_id = 2, time = 1, state = NO_TOKEN,
      token = [], request = [(2, 1)], calls = [(1, Request_token 1 2)]\<rparr>
   = Inr
     \<lparr>peer_list = \<lparr>pl_owner_id = 2, pl_owner_address = (''b'', 40002),
                   peers = [(1, (''a'', 40001))], pl_calls = []\<rparr>,
      owner_id = 2, time = 1, state = TOKEN_HELD,
      token = [(2, 1)], request = [(2, 1)], calls = [(1, Request_token 1 2)]\<rparr>"
    by (simp add: obtain_token_def int_keys_def dict_of_def counter_get_def Let_def)
  show ?thesis
    by (simp only: h o) (simp add: acquire_preempted_def h)
qed

text \<open>
  Claim C2. When \<^verbatim>\<open>_check_token\<close> has chosen a target and the remote \<^verbatim>\<open>obtain_token\<close>
  raises, the claim wants the sender to keep its token state. The code sets the state to
  \<open>NO_TOKEN\<close> before the call and its handler only prints: with holder 3 in
  \<open>TOKEN_PRESENT\<close>, a request of peer 5 pending and the call to peer 5 raising,
  \<^verbatim>\<open>_check_token\<close> returns \<open>False\<close> and leaves the holder in \<open>NO_TOKEN\<close>.
\<close>

theorem check_token_failed_send_loses_token:
  "check_token (\<lambda>cs p m. False)
     \<lparr>peer_list = \<lparr>pl_owner_id = 3, pl_owner_address = (''a'', 40003),
                   peers = [(5, (''b'', 40005))], pl_calls = []\<rparr>,
      owner_id = 3, time = 1, state = TOKEN_PRESENT,
      token = [(3, 1)], request = [(5, 1)], calls = []\<rparr>
   = (False,
     \<lparr>peer_list = \<lparr>pl_owner_id = 3, pl_owner_address = (''a'', 40003),
                   peers = [(5, (''b'', 40005))], pl_calls = []\<rparr>,
      owner_id = 3, time = 1, state = NO_TOKEN,
      token = [(3, 1)], request = [(5, 1)], calls = [(5, Obtain_token [(3, 1)])]\<rparr>)"
  by (simp add: check_token_def find_target_def scan_order_def clean_token_def keys_def
      get_peers_def counter_get_def dict_of_def Let_def)

text \<open>
  Claim C3. \<^verbatim>\<open>PeerList.initialize\<close> is claimed to register only the discovered peers
  with an identifier below the owner's. The loop tests \<^verbatim>\<open>peer_id != self.owner.id\<close>:
  for owner 3 and a name service that answers with the owner and peer 5, peer 5 is registered locally
  and the owner is registered at peer 5.
\<close>

theorem PeerList_initialize_registers_higher_id:
  "PeerList_initialize (\<lambda>cs p m. True)
     (Inr [(3, (''a'', 40003)), (5, (''b'', 40005))])
     (PeerList_init 3 (''a'', 40003))
   = Inr \<lparr>pl_owner_id = 3, pl_owner_address = (''a'', 40003),
          peers = [(5, (''b'', 40005))],
          pl_calls = [(5, Register_peer 3 (''a'', 40003))]\<rparr>"
  by (simp add: PeerList_initialize_def PeerList_init_def register_peer_unchecked_def Let_def)

text \<open>
  Claim C4. Decoding the encoding of a token payload is claimed to give the payload back.
  \<^verbatim>\<open>_prepare\<close> gives a list of tuples and \<^verbatim>\<open>_unprepare\<close> passes it to \<^verbatim>\<open>Counter\<close>,
  which counts the tuples: the payload \<^verbatim>\<open>{1: 5}\<close> comes back as \<^verbatim>\<open>{(1, 5): 1}\<close>, in
  which peer 1 has timestamp 0 instead of 5.
\<close>

theorem unprepare_prepare_counts_pairs:
  "unprepare (prepare [(PInt 1, 5)]) = [(PTuple [PInt 1, PInt 5], 1)]
   \<and> counter_get (unprepare (prepare [(PInt 1, 5)])) (PInt 1) = 0
   \<and> counter_get [(PInt 1, 5)] (PInt 1) = 5"
  by (simp add: unprepare_def prepare_def Counter_def count_elements_def counter_get_def)

text \<open>
  Claim C5. A remote \<^verbatim>\<open>request_token\<close> that raises during the broadcast of \<^verbatim>\<open>acquire\<close>
  is claimed to be caught at the call site. The loop has no handler: for owner 3 in
  \<open>NO_TOKEN\<close> with peers 1 and 2, where the call to peer 1 raises, \<^verbatim>\<open>acquire\<close> raises
  that exception, whatever the other threads do later; peer 2 is never asked and the
  polling loop is not entered.
\<close>

theorem acquire_broadcast_failure_propagates:
  "acquire (\<lambda>cs p m. p \<noteq> 1) evs
     \<lparr>peer_list = \<lparr>pl_owner_id = 3, pl_owner_address = (''a'', 40003),
                   peers = [(1, (''b'', 40001)), (2, (''c'', 40002))], pl_calls = []\<rparr>,
      owner_id = 3, time = 0, state = NO_TOKEN,
      token = [], request = [], calls = []\<rparr>
   = Some (Inl (RemoteError 1,
     \<lparr>peer_list = \<lparr>pl_owner_id = 3, pl_owner_address = (''a'', 40003),
                   peers = [(1, (''b'', 40001)), (2, (''c'', 40002))], pl_calls = []\<rparr>,
      owner_id = 3, time = 1, state = NO_TOKEN,
      token = [], request = [(3, 1)], calls = [(1, Request_token 1 3)]\<rparr>))"
  by (simp add: acquire_def get_peers_def keys_def Let_def)

text \<open>
  Claim C6. \<^verbatim>\<open>_check_token\<close> scans the requesters above the owner in ascending order
  and then those below the owner in ascending order; for requesters 2, 5, 1 and owner 3
  that is 5, 1, 2. The target is the first identifier of that list whose request
  timestamp exceeds its token timestamp, and \<^verbatim>\<open>obtain_token\<close> is called on that peer's
  stub (unless the state is \<open>NO_TOKEN\<close> or the peer has no stub). When no identifier of
  the list qualifies, the lock is returned as it was and no call is issued.
\<close>

theorem check_token_forwarding_order:
  "(\<exists>gt lt. scan_order s = gt @ lt \<and> sorted gt \<and> sorted lt
      \<and> set gt = {p \<in> set (keys (request s)). owner_id s < p}
      \<and> set lt = {p \<in> set (keys (request s)). p < owner_id s})
   \<and> scan_order (s\<lparr>owner_id := 3, request := [(2, a), (5, b), (1, c)]\<rparr>) = [5, 1, 2]
   \<and> (case find_target s of
         None \<Rightarrow>
           list_all (\<lambda>p. \<not> counter_get (token s) p < counter_get (request s) p) (scan_order s)
           \<and> check_token net s = (False, s)
       | Some pid \<Rightarrow>
           (\<exists>pre post. scan_order s = pre @ pid # post
              \<and> list_all (\<lambda>p. \<not> counter_get (token s) p < counter_get (request s) p) pre
              \<and> counter_get (token s) pid < counter_get (request s) pid)
           \<and> calls (snd (check_token net s)) =
               (if state s \<noteq> NO_TOKEN \<and> pid \<in> set (keys (get_peers (peer_list s)))
                then calls s @ [(pid, Obtain_token (token (clean_token s)))]
                else calls s))"
proof -
  have ex: "scan_order (s\<lparr>owner_id := 3, request := [(2, a), (5, b), (1, c)]\<rparr>) = [5, 1, 2]"
    by (simp add: scan_order_def keys_def)
  have tgt: "case find_target s of
         None \<Rightarrow>
           list_all (\<lambda>p. \<not> counter_get (token s) p < counter_get (request s) p) (scan_order s)
           \<and> check_token net s = (False, s)
       | Some pid \<Rightarrow>
           (\<exists>pre post. scan_order s = pre @ pid # post
              \<and> list_all (\<lambda>p. \<not> counter_get (token s) p < counter_get (request s) p) pre
              \<and> counter_get (token s) pid < counter_get (request s) pid)
           \<and> calls (snd (check_token net s)) =
               (if state s \<noteq> NO_TOKEN \<and> pid \<in> set (keys (get_peers (peer_list s)))
                then calls s @ [(pid, Obtain_token (token (clean_token s)))]
                else calls s)"
  proof (cases "find_target s")
    case None
    then have "list_all (\<lambda>p. \<not> counter_get (token s) p < counter_get (request s) p) (scan_order s)"
      unfolding find_target_def by (rule find_None_all)
    with None show ?thesis by (simp add: check_token_def)
  next
    case (Some pid)
    then have sp: "\<exists>pre post. scan_order s = pre @ pid # post
              \<and> list_all (\<lambda>p. \<not> counter_get (token s) p < counter_get (request s) p) pre
              \<and> counter_get (token s) pid < counter_get (request s) pid"
      unfolding find_target_def by (rule find_Some_split)
    have pl: "peer_list (clean_token s) = peer_list s" "calls (clean_token s) = calls s"
      by (simp_all add: clean_token_def Let_def)
    have "calls (snd (check_token net s)) =
               (if state s \<noteq> NO_TOKEN \<and> pid \<in> set (keys (get_peers (peer_list s)))
                then calls s @ [(pid, Obtain_token (token (clean_token s)))]
                else calls s)"
      using Some map_of_keys [of "get_peers (peer_list s)" pid]
      by (auto simp: check_token_def Let_def pl split: option.splits)
    with Some sp show ?thesis by simp
  qed
  from scan_order_split [of s] ex tgt show ?thesis by blast
qed

theorem check_token_forwarding_order_witness:
  "find_target
     \<lparr>peer_list = \<lparr>pl_owner_id = 3, pl_owner_address = (''a'', 40003),
                   peers = [(1, (''b'', 40001)), (2, (''c'', 40002)), (5, (''d'', 40005))],
                   pl_calls = []\<rparr>,
      owner_id = 3, time = 1, state = TOKEN_PRESENT,
      token = [(3, 1), (5, 2)], request = [(2, 1), (5, 2), (1, 1)], calls = []\<rparr> = Some 1
   \<and> calls (snd (check_token (\<lambda>cs p m. True)
     \<lparr>peer_list = \<lparr>pl_owner_id = 3, pl_owner_address = (''a'', 40003),
                   peers = [(1, (''b'', 40001)), (2, (''c'', 40002)), (5, (''d'', 40005))],
                   pl_calls = []\<rparr>,
      owner_id = 3, time = 1, state = TOKEN_PRESENT,
      token = [(3, 1), (5, 2)], request = [(2, 1), (5, 2), (1, 1)], calls = []\<rparr>))
     = [(1, Obtain_token [(3, 1), (5, 2)])]"
proof -
  let ?s = "\<lparr>peer_list = \<lparr>pl_owner_id = 3, pl_owner_address = (''a'', 40003),
                   peers = [(1, (''b'', 40001)), (2, (''c'', 40002)), (5, (''d'', 40005))],
                   pl_calls = []\<rparr>,
      owner_id = 3, time = 1, state = TOKEN_PRESENT,
      token = [(3, 1), (5, 2)], request = [(2, 1), (5, 2), (1, 1)], calls = []\<rparr>"
  have t: "find_target ?s = Some 1"
    by (simp add: find_target_def scan_order_def keys_def counter_get_def)
  have c: "token (clean_token ?s) = [(3, 1), (5, 2)]"
    by (simp add: clean_token_def get_peers_def keys_def counter_get_def dict_of_def)
  show ?thesis
    using check_token_forwarding_order [of ?s _ _ _ "\<lambda>cs p m. True"] t c
    by (simp add: get_peers_def keys_def)
qed

text \<open>
  Claim C7. After any sequence of \<^verbatim>\<open>request_token\<close> calls, the request timestamp stored
  for a peer is the greatest of the value stored before and the timestamps received for
  that peer; from a new lock, the greatest of 0 and those timestamps. No single call
  lowers the stored timestamp of any peer.
\<close>

theorem request_token_monotone_merge:
  "counter_get (request (request_tokens net cs s)) pid =
     Max (insert (counter_get (request s) pid) {t. (t, pid) \<in> set cs})
   \<and> counter_get (request (request_tokens net cs (DistributedLock_init oid pl))) pid =
     Max (insert 0 {t. (t, pid) \<in> set cs})
   \<and> counter_get (request s) pid \<le> counter_get (request (snd (request_token net t q s))) pid"
proof -
  have "counter_get (request (DistributedLock_init oid pl)) pid = 0"
    by (simp add: DistributedLock_init_def counter_get_def)
  then show ?thesis
    using request_request_tokens [of net cs "DistributedLock_init oid pl" pid]
    by (simp add: request_request_tokens request_request_token)
qed

text \<open>
  Claim C8. \<^verbatim>\<open>obtain_token\<close>, in state \<open>NO_TOKEN\<close> as in any other, takes the received
  payload with its keys converted to integers as its token, sets the owner's entry to the
  local clock and the state to \<open>TOKEN_HELD\<close>, and then calls \<^verbatim>\<open>release\<close> exactly when
  the owner's request timestamp does not exceed the entry the payload had for the owner.
  Where the conversion of the keys is injective, the converted payload has the pairs of
  the received one.
\<close>

theorem obtain_token_semantics:
  assumes "int_keys int_of tok = Some c"
  shows "(let held = s\<lparr>token := AList.update (owner_id s) (time s) c, state := TOKEN_HELD\<rparr>
          in obtain_token int_of net tok s =
               Inr (if counter_get (request s) (owner_id s) \<le> counter_get c (owner_id s)
                    then release net held else held)
             \<and> (\<forall>p. counter_get (token held) p =
                      (if p = owner_id s then time s else counter_get c p)))
         \<and> (distinct (keys tok) \<and> inj_on int_of (set (keys tok)) \<longrightarrow>
              c = map (\<lambda>(k, v). (the (int_of k), v)) tok)"
proof -
  have "obtain_token int_of net tok s =
      Inr (if counter_get (request s) (owner_id s) \<le> counter_get c (owner_id s)
           then release net (s\<lparr>token := AList.update (owner_id s) (time s) c, state := TOKEN_HELD\<rparr>)
           else s\<lparr>token := AList.update (owner_id s) (time s) c, state := TOKEN_HELD\<rparr>)"
    using assms by (simp add: obtain_token_def Let_def not_less)
  moreover have "distinct (keys tok) \<and> inj_on int_of (set (keys tok)) \<longrightarrow>
              c = map (\<lambda>(k, v). (the (int_of k), v)) tok"
    using int_keys_distinct [OF assms] by blast
  ultimately show ?thesis
    by (simp add: Let_def counter_get_update)
qed

theorem obtain_token_semantics_witness:
  "int_keys Some [(1, 4), (3, 0)] = Some [(1, 4), (3, 0)]
   \<and> obtain_token Some (\<lambda>cs p m. True) [(1, 4), (3, 0)]
       \<lparr>peer_list = \<lparr>pl_owner_id = 3, pl_owner_address = (''a'', 40003),
                     peers = [(1, (''b'', 40001))], pl_calls = []\<rparr>,
        owner_id = 3, time = 1, state = NO_TOKEN,
        token = [], request = [(3, 1)], calls = []\<rparr>
     = Inr \<lparr>peer_list = \<lparr>pl_owner_id = 3, pl_owner_address = (''a'', 40003),
                     peers = [(1, (''b'', 40001))], pl_calls = []\<rparr>,
        owner_id = 3, time = 1, state = TOKEN_HELD,
        token = [(1, 4), (3, 1)], request = [(3, 1)], calls = []\<rparr>"
proof -
  have c: "int_keys Some [(1, 4), (3, 0)] = Some [(1::int, 4::int), (3, 0)]"
    by (simp add: int_keys_def dict_of_def)
  show ?thesis
    using c obtain_token_semantics [OF c, of "\<lparr>peer_list = \<lparr>pl_owner_id = 3, pl_owner_address = (''a'', 40003),
                     peers = [(1, (''b'', 40001))], pl_calls = []\<rparr>,
        owner_id = 3, time = 1, state = NO_TOKEN,
        token = [], request = [(3, 1)], calls = []\<rparr>" "\<lambda>cs p m. True"]
    by (simp add: Let_def counter_get_def)
qed

text \<open>
  Claim C9. \<^verbatim>\<open>DistributedLock.initialize\<close> sets the state to \<open>TOKEN_PRESENT\<close> when the
  peer dict is empty and leaves the lock as it is otherwise; a newly constructed lock is
  in \<open>NO_TOKEN\<close>, so it ends in \<open>TOKEN_PRESENT\<close> with no peer and stays in \<open>NO_TOKEN\<close>
  with at least one.
\<close>

theorem initialize_bootstrap_state:
  "initialize s = (if peers (peer_list s) = [] then s\<lparr>state := TOKEN_PRESENT\<rparr> else s)
   \<and> state (initialize (DistributedLock_init oid pl)) =
       (if peers pl = [] then TOKEN_PRESENT else NO_TOKEN)"
  by (simp add: initialize_def DistributedLock_init_def get_peers_def)

text \<open>
  Claim C10. Either \<^verbatim>\<open>_check_token\<close> issues no call and reports that nothing was sent,
  or it issues exactly one \<^verbatim>\<open>obtain_token\<close> call, to the target, and the payload of that
  call is the token after the purge: each of its keys is the owner's identifier or a key
  of the peer dict, the entries of those identifiers are the ones the token had, and every
  other identifier reads 0. The calls that \<^verbatim>\<open>_offload_token\<close> issues are
  \<^verbatim>\<open>obtain_token\<close> calls too, and the keys of their payloads are likewise the owner's
  identifier or keys of the peer dict.
\<close>

theorem check_token_purges_before_send:
  "(let s' = snd (check_token net s);
        live = insert (owner_id s) (set (keys (get_peers (peer_list s))))
    in (calls s' = calls s \<and> \<not> fst (check_token net s))
       \<or> (\<exists>pid. find_target s = Some pid
             \<and> calls s' = calls s @ [(pid, Obtain_token (token s'))]
             \<and> set (keys (token s')) \<subseteq> live
             \<and> (\<forall>k. counter_get (token s') k =
                      (if k \<in> live then counter_get (token s) k else 0))))
   \<and> (\<exists>new. calls (snd (offload_token net s)) = calls s @ new
         \<and> list_all (\<lambda>(p, m). \<exists>tok. m = Obtain_token tok
               \<and> set (keys tok) \<subseteq> insert (owner_id s) (set (keys (get_peers (peer_list s)))))
             new)"
  using check_token_cases [of net s] offload_token_calls [of net s] by (rule conjI)

theorem check_token_purges_before_send_witness:
  "calls (snd (check_token (\<lambda>cs p m. True)
     \<lparr>peer_list = \<lparr>pl_owner_id = 3, pl_owner_address = (''a'', 40003),
                   peers = [(5, (''b'', 40005))], pl_calls = []\<rparr>,
      owner_id = 3, time = 1, state = TOKEN_PRESENT,
      token = [(3, 1), (7, 2), (5, 0)], request = [(5, 1)], calls = []\<rparr>))
     = [(5, Obtain_token [(3, 1), (5, 0)])]
   \<and> set (keys [(3::int, 1::int), (5, 0)]) \<subseteq> {3, 5}"
proof -
  let ?s = "\<lparr>peer_list = \<lparr>pl_owner_id = 3, pl_owner_address = (''a'', 40003),
                   peers = [(5, (''b'', 40005))], pl_calls = []\<rparr>,
      owner_id = 3, time = 1, state = TOKEN_PRESENT,
      token = [(3, 1), (7, 2), (5, 0)], request = [(5, 1)], calls = []\<rparr>"
  have r: "check_token (\<lambda>cs p m. True) ?s = (True, ?s\<lparr>state := NO_TOKEN,
      token := [(3, 1), (5, 0)], calls := [(5, Obtain_token [(3, 1), (5, 0)])]\<rparr>)"
    by (simp add: check_token_def find_target_def scan_order_def clean_token_def keys_def
        get_peers_def counter_get_def dict_of_def Let_def)
  show ?thesis
    using check_token_purges_before_send [of "\<lambda>cs p m. True" ?s, THEN conjunct1]
    by (simp add: r Let_def get_peers_def keys_def)
qed

end
